theory Spec2Isabelle
  imports Main "HOL-Library.Word"
begin

section \<open>Buffers and strings of the host platform\<close>

text \<open>
  The two functions of \<^verbatim>\<open>src/extension.js\<close> that decode objects work on Node
  \<^verbatim>\<open>Buffer\<close>s (arrays of bytes) and on JavaScript strings (sequences of UTF-16 code
  units). A byte is an 8-bit word; a code unit is kept as a natural number, since no
  arithmetic is done on it that could wrap.
\<close>

type_synonym byte = "8 word"
type_synonym buffer = "byte list"
type_synonym jsstring = "nat list"

text \<open>A string literal of the source, all of whose characters are ASCII.\<close>

definition lit :: "string \<Rightarrow> jsstring" where
  "lit s = map of_char s"

text \<open>The bytes of an ASCII text, for writing inputs down.\<close>

definition bytes :: "string \<Rightarrow> buffer" where
  "bytes s = map (\<lambda>c. of_nat (of_char c)) s"

text \<open>
  \<^verbatim>\<open>buf.indexOf(value, byteOffset)\<close> for a byte value and a non-negative offset: the
  first index at or after the offset that holds the value, or -1 (here \<open>None\<close>).
\<close>

definition indexOf :: "buffer \<Rightarrow> byte \<Rightarrow> nat \<Rightarrow> nat option" where
  "indexOf buf v byteOffset =
     (if v \<in> set (drop byteOffset buf)
      then Some (byteOffset + length (takeWhile (\<lambda>b. b \<noteq> v) (drop byteOffset buf)))
      else None)"

text \<open>
  \<^verbatim>\<open>buf.slice(start, end)\<close> for non-negative indices: an end beyond the buffer is
  clamped, an end before the start gives the empty buffer.
\<close>

definition slice :: "buffer \<Rightarrow> nat \<Rightarrow> nat \<Rightarrow> buffer" where
  "slice buf start end = take (end - start) (drop start buf)"

text \<open>\<^verbatim>\<open>buf.toString("hex")\<close>: two lowercase hexadecimal digits for each byte.\<close>

definition hexDigit :: "nat \<Rightarrow> nat" where
  "hexDigit d = (if d < 10 then 48 + d else 87 + d)"

definition toHex :: "buffer \<Rightarrow> jsstring" where
  "toHex buf = concat (map (\<lambda>b. [hexDigit (unat b div 16), hexDigit (unat b mod 16)]) buf)"

text \<open>
  \<^verbatim>\<open>buf.toString()\<close> decodes UTF-8 and never fails: every maximal ill-formed
  run of bytes becomes one U+FFFD. The decoder keeps the number of continuation bytes
  still needed, the code point collected so far and the range allowed for the next
  byte; a byte outside that range ends the pending sequence with U+FFFD and is read
  again from the initial state. A collected code point \<open>cp\<close> with a next byte \<open>b\<close>
  becomes \<open>(cp << 6) | (b & 0x3F)\<close>, written here as \<open>cp * 64 + b mod 64\<close>.
\<close>

function utf8_decode :: "nat \<Rightarrow> nat \<Rightarrow> nat \<Rightarrow> nat \<Rightarrow> buffer \<Rightarrow> nat list" where
  "utf8_decode needed cp lower upper [] = (if needed = 0 then [] else [0xFFFD])"
| "utf8_decode needed cp lower upper (b # bs) =
     (let n = unat b in
      if needed = 0 then
        (if n \<le> 0x7F then n # utf8_decode 0 0 0x80 0xBF bs
         else if 0xC2 \<le> n \<and> n \<le> 0xDF then utf8_decode 1 (n mod 32) 0x80 0xBF bs
         else if 0xE0 \<le> n \<and> n \<le> 0xEF then
           utf8_decode 2 (n mod 16) (if n = 0xE0 then 0xA0 else 0x80)
             (if n = 0xED then 0x9F else 0xBF) bs
         else if 0xF0 \<le> n \<and> n \<le> 0xF4 then
           utf8_decode 3 (n mod 8) (if n = 0xF0 then 0x90 else 0x80)
             (if n = 0xF4 then 0x8F else 0xBF) bs
         else 0xFFFD # utf8_decode 0 0 0x80 0xBF bs)
      else if n < lower \<or> upper < n then 0xFFFD # utf8_decode 0 0 0x80 0xBF (b # bs)
      else if needed = 1 then (cp * 64 + n mod 64) # utf8_decode 0 0 0x80 0xBF bs
      else utf8_decode (needed - 1) (cp * 64 + n mod 64) 0x80 0xBF bs)"
  by pat_completeness auto
termination
  by (relation "measure (\<lambda>(needed, cp, lower, upper, bs). 2 * length bs + (if needed = 0 then 0 else 1))")
     auto

text \<open>A code point as UTF-16 code units: a surrogate pair from U+10000 on.\<close>

definition utf16 :: "nat \<Rightarrow> nat list" where
  "utf16 c = (if c < 0x10000 then [c]
              else [0xD800 + (c - 0x10000) div 1024, 0xDC00 + (c - 0x10000) mod 1024])"

definition toString :: "buffer \<Rightarrow> jsstring" where
  "toString buf = concat (map utf16 (utf8_decode 0 0 0x80 0xBF buf))"

text \<open>
  \<^verbatim>\<open>str.split(sep)\<close> for a separator of one code unit: the pieces between the
  occurrences of the separator, so at least one piece.
\<close>

fun split :: "jsstring \<Rightarrow> nat \<Rightarrow> jsstring list" where
  "split [] sep = [[]]"
| "split (u # us) sep =
     (if u = sep then [] # split us sep
      else (case split us sep of [] \<Rightarrow> [[u]] | p # ps \<Rightarrow> (u # p) # ps))"

text \<open>\<^verbatim>\<open>str.padEnd(n)\<close>: spaces appended up to length \<open>n\<close>.\<close>

definition padEnd :: "jsstring \<Rightarrow> nat \<Rightarrow> jsstring" where
  "padEnd s n = s @ replicate (n - length s) 0x20"

text \<open>\<^verbatim>\<open>strs.join(sep)\<close>.\<close>

fun join :: "jsstring list \<Rightarrow> jsstring \<Rightarrow> jsstring" where
  "join [] sep = []"
| "join [s] sep = s"
| "join (s # t # ss) sep = s @ sep @ join (t # ss) sep"

text \<open>
  \<^verbatim>\<open>parseInt(x, 10)\<close>, with \<open>None\<close> for NaN. An argument that is
  \<^verbatim>\<open>undefined\<close> is first turned into the string "undefined". Leading white space
  and line terminators are skipped, one sign is read, and the longest run of decimal
  digits that follows is the value; no digit gives NaN. The value is kept as an exact
  integer: the source only compares it with a buffer length, which is below \<open>2^53\<close>, and
  a digit string at or above \<open>2^53\<close> rounds to a number that is at least \<open>2^53\<close>, so the
  comparison comes out as with the exact integer. Minus zero is kept as \<open>0\<close>, which it
  equals under \<^verbatim>\<open>===\<close>.
\<close>

definition isWhiteSpace :: "nat \<Rightarrow> bool" where
  "isWhiteSpace u \<longleftrightarrow>
     u \<in> {0x9, 0xA, 0xB, 0xC, 0xD, 0x20, 0xA0, 0x1680, 0x2028, 0x2029, 0x202F, 0x205F,
          0x3000, 0xFEFF} \<or> (0x2000 \<le> u \<and> u \<le> 0x200A)"

definition isDigit :: "nat \<Rightarrow> bool" where
  "isDigit u \<longleftrightarrow> 48 \<le> u \<and> u \<le> 57"

definition digitsValue :: "jsstring \<Rightarrow> int" where
  "digitsValue z = foldl (\<lambda>acc u. 10 * acc + int (u - 48)) 0 z"

definition parseInt :: "jsstring option \<Rightarrow> int option" where
  "parseInt x =
     (let inputString = (case x of None \<Rightarrow> lit ''undefined'' | Some s \<Rightarrow> s);
          S = dropWhile isWhiteSpace inputString;
          sign = (if S \<noteq> [] \<and> hd S = 0x2D then - 1 else 1);
          S' = (if S \<noteq> [] \<and> (hd S = 0x2B \<or> hd S = 0x2D) then tl S else S);
          Z = takeWhile isDigit S'
      in if Z = [] then None else Some (sign * digitsValue Z))"


section \<open>The object decoder\<close>

text \<open>
  A rejected promise is an \<^verbatim>\<open>Error\<close> with its message; a resolved one carries the
  object \<^verbatim>\<open>{ type, size, content }\<close>, whose fields are prefixed here.
\<close>

datatype error = Error string

record git_object =
  obj_type :: jsstring
  obj_size :: int
  obj_content :: buffer

text \<open>
  The array pattern \<^verbatim>\<open>const [type, sizeStr] = header.split(" ")\<close> takes the first
  two pieces of the split; the second is \<^verbatim>\<open>undefined\<close> (here \<open>None\<close>) when the
  header has no space. A split always has a first piece.
\<close>

definition headerFields :: "jsstring \<Rightarrow> jsstring \<times> jsstring option" where
  "headerFields header =
     (let pieces = split header 0x20
      in (hd pieces, case tl pieces of [] \<Rightarrow> None | sizeStr # _ \<Rightarrow> Some sizeStr))"

text \<open>
  The body of the callback that receives the decompressed data (lines 19 to 34 of
  \<^verbatim>\<open>parseGitObject\<close>). The comparison \<^verbatim>\<open>size !== content.length\<close> is true
  whenever \<^verbatim>\<open>size\<close> is NaN.
\<close>

definition parseDecompressed :: "buffer \<Rightarrow> error + git_object" where
  "parseDecompressed decompressedData =
     (case indexOf decompressedData 0 0 of
        None \<Rightarrow> Inl (Error ''Invalid Git object format'')
      | Some nullByteIndex \<Rightarrow>
          (let header = toString (slice decompressedData 0 nullByteIndex);
               content = drop (nullByteIndex + 1) decompressedData;
               (type, sizeStr) = headerFields header
           in case parseInt sizeStr of
                None \<Rightarrow> Inl (Error ''Size mismatch'')
              | Some size' \<Rightarrow>
                  if size' \<noteq> int (length content) then Inl (Error ''Size mismatch'')
                  else Inr \<lparr>obj_type = type, obj_size = size', obj_content = content\<rparr>))"

text \<open>
  \<^verbatim>\<open>zlib.inflate\<close> and \<^verbatim>\<open>fs.readFile\<close> belong to the platform and are
  parameters here: each gives the bytes or an error, and the source passes such an
  error on unchanged.
\<close>

definition inflateObject :: "(buffer \<Rightarrow> error + buffer) \<Rightarrow> buffer \<Rightarrow> error + git_object" where
  "inflateObject inflate compressedData =
     (case inflate compressedData of
        Inl err \<Rightarrow> Inl err
      | Inr decompressedData \<Rightarrow> parseDecompressed decompressedData)"

definition parseGitObject ::
  "('p \<Rightarrow> error + buffer) \<Rightarrow> (buffer \<Rightarrow> error + buffer) \<Rightarrow> 'p \<Rightarrow> error + git_object" where
  "parseGitObject readFile inflate objectPath =
     (case readFile objectPath of
        Inl err \<Rightarrow> Inl err
      | Inr compressedData \<Rightarrow> inflateObject inflate compressedData)"

section \<open>The tree parser\<close>

text \<open>
  One element of \<^verbatim>\<open>entries\<close> is built from the four locals \<^verbatim>\<open>mode\<close>,
  \<^verbatim>\<open>typeStr\<close>, \<^verbatim>\<open>hash\<close> and \<^verbatim>\<open>name\<close>; the record keeps them under prefixed names, and
  \<open>entryLine\<close> is the template string that the source pushes.
\<close>

record tree_entry =
  entry_mode :: jsstring
  entry_typeStr :: jsstring
  entry_hash :: jsstring
  entry_name :: jsstring

definition entryLine :: "tree_entry \<Rightarrow> jsstring" where
  "entryLine e =
     padEnd (entry_mode e) 6 @ lit '' '' @ padEnd (entry_typeStr e) 20 @ lit '' ''
       @ entry_hash e @ lit ''    '' @ entry_name e"

text \<open>The chain of comparisons on \<^verbatim>\<open>mode\<close> (lines 71 to 84).\<close>

definition modeType :: "jsstring \<Rightarrow> jsstring" where
  "modeType mode =
     (if mode = lit ''40000'' then lit ''tree''
      else if mode = lit ''100644'' then lit ''blob''
      else if mode = lit ''100755'' then lit ''blob (executable)''
      else if mode = lit ''120000'' then lit ''symlink''
      else if mode = lit ''160000'' then lit ''commit (submodule)''
      else lit ''unknown'')"

text \<open>
  One pass through the loop body from \<^verbatim>\<open>offset\<close>: \<open>None\<close> where the source
  leaves the loop by \<^verbatim>\<open>break\<close>, otherwise the entry pushed and the new offset.
\<close>

definition readEntry :: "buffer \<Rightarrow> nat \<Rightarrow> (tree_entry \<times> nat) option" where
  "readEntry content offset =
     (case indexOf content 0x20 offset of
        None \<Rightarrow> None
      | Some spaceIndex \<Rightarrow>
          (let mode = toString (slice content offset spaceIndex);
               offset = spaceIndex + 1
           in case indexOf content 0x00 offset of
                None \<Rightarrow> None
              | Some nullIndex \<Rightarrow>
                  (let name = toString (slice content offset nullIndex);
                       offset = nullIndex + 1
                   in if offset + 20 > length content then None
                      else (let hash = toHex (slice content offset (offset + 20));
                                offset = offset + 20;
                                typeStr = modeType mode
                            in Some (\<lparr>entry_mode = mode, entry_typeStr = typeStr,
                                       entry_hash = hash, entry_name = name\<rparr>,
                                     offset)))))"

lemma takeWhile_before:
  "v \<in> set xs \<Longrightarrow> length (takeWhile (\<lambda>b. b \<noteq> v) xs) < length xs"
  by (induction xs) auto

lemma indexOf_Some:
  assumes "indexOf buf v byteOffset = Some i"
  shows "byteOffset \<le> i" and "i < length buf"
proof -
  let ?rest = "drop byteOffset buf"
  from assms have mem: "v \<in> set ?rest"
    and i: "i = byteOffset + length (takeWhile (\<lambda>b. b \<noteq> v) ?rest)"
    by (auto simp: indexOf_def split: if_splits)
  show "byteOffset \<le> i" using i by simp
  from mem have "length (takeWhile (\<lambda>b. b \<noteq> v) ?rest) < length ?rest"
    by (rule takeWhile_before)
  then show "i < length buf" using i by simp
qed

lemma readEntry_offset:
  assumes "readEntry content offset = Some (e, offset')"
  shows "offset + 22 \<le> offset'" and "offset' \<le> length content"
  using assms
  by (auto simp: readEntry_def Let_def split: option.splits if_splits dest!: indexOf_Some(1))

text \<open>
  The \<^verbatim>\<open>while\<close> loop as a function of the payload, the offset and the entries pushed
  so far, giving the entries when the loop is left. \<open>parseTreeEntries\<close> is the value of
  \<^verbatim>\<open>entries\<close> when the loop started by \<^verbatim>\<open>parseTreeObject\<close> is left, and
  \<open>parseTreeObject\<close> the text returned: the lines of the entries joined by newlines.
\<close>

function parseTree_loop :: "buffer \<Rightarrow> nat \<Rightarrow> tree_entry list \<Rightarrow> tree_entry list" where
  "parseTree_loop content offset entries =
     (if offset < length content then
        (case readEntry content offset of
           None \<Rightarrow> entries
         | Some (e, offset') \<Rightarrow> parseTree_loop content offset' (entries @ [e]))
      else entries)"
  by pat_completeness auto
termination
  by (relation "measure (\<lambda>(content, offset, entries). length content - offset)")
     (auto dest!: readEntry_offset(1))

declare parseTree_loop.simps [simp del]

definition parseTreeEntries :: "buffer \<Rightarrow> tree_entry list" where
  "parseTreeEntries content = parseTree_loop content 0 []"

definition parseTreeObject :: "buffer \<Rightarrow> jsstring" where
  "parseTreeObject content = join (map entryLine (parseTreeEntries content)) [0x0A]"

text \<open>
  The loop with a bound on the number of passes: \<open>None\<close> when the passes run out
  before the loop is left.
\<close>

fun parseTree_fuel ::
  "nat \<Rightarrow> buffer \<Rightarrow> nat \<Rightarrow> tree_entry list \<Rightarrow> tree_entry list option" where
  "parseTree_fuel 0 content offset entries = None"
| "parseTree_fuel (Suc fuel) content offset entries =
     (if offset < length content then
        (case readEntry content offset of
           None \<Rightarrow> Some entries
         | Some (e, offset') \<Rightarrow> parseTree_fuel fuel content offset' (entries @ [e]))
      else Some entries)"

section \<open>Vocabulary of the properties\<close>

text \<open>
  A well-formed tree entry as raw bytes: a mode token without a space byte, a space
  byte, a name without a zero byte, a zero byte and 20 bytes of hash. \<open>decoded\<close> is the
  entry that stands for it: its fields as text, with the label the source gives the mode.
\<close>

record raw_entry =
  raw_mode :: buffer
  raw_name :: buffer
  raw_hash :: buffer

definition entryBytes :: "raw_entry \<Rightarrow> buffer" where
  "entryBytes r = raw_mode r @ [0x20] @ raw_name r @ [0x00] @ raw_hash r"

definition wellFormed :: "raw_entry \<Rightarrow> bool" where
  "wellFormed r \<longleftrightarrow> 0x20 \<notin> set (raw_mode r) \<and> 0x00 \<notin> set (raw_name r) \<and> length (raw_hash r) = 20"

definition decoded :: "raw_entry \<Rightarrow> tree_entry" where
  "decoded r = \<lparr>entry_mode = toString (raw_mode r), entry_typeStr = modeType (toString (raw_mode r)),
     entry_hash = toHex (raw_hash r), entry_name = toString (raw_name r)\<rparr>"


text \<open>
  A trailing piece of payload in which a field cannot be read in full: no space byte
  to end the mode, or no zero byte after it to end the name, or fewer than 20 bytes
  after that zero byte.
\<close>

definition missingField :: "buffer \<Rightarrow> bool" where
  "missingField t \<longleftrightarrow>
     0x20 \<notin> set t \<or>
     (let afterMode = drop 1 (dropWhile (\<lambda>b. b \<noteq> 0x20) t)
      in 0x00 \<notin> set afterMode \<or>
         length (drop 1 (dropWhile (\<lambda>b. b \<noteq> 0x00) afterMode)) < 20)"

text \<open>
  The classes of the mode table as the specification names them, the table itself
  (section 4.2 of the specification: an exact match of the token, anything else is
  unknown), and the label that the source prints for each class.
\<close>

datatype classification =
  Directory | RegularFile | ExecutableFile | SymbolicLink | EmbeddedRepository | Unknown

definition spec_classification :: "jsstring \<Rightarrow> classification" where
  "spec_classification token =
     (if token = lit ''40000'' then Directory
      else if token = lit ''100644'' then RegularFile
      else if token = lit ''100755'' then ExecutableFile
      else if token = lit ''120000'' then SymbolicLink
      else if token = lit ''160000'' then EmbeddedRepository
      else Unknown)"

fun classLabel :: "classification \<Rightarrow> jsstring" where
  "classLabel Directory = lit ''tree''"
| "classLabel RegularFile = lit ''blob''"
| "classLabel ExecutableFile = lit ''blob (executable)''"
| "classLabel SymbolicLink = lit ''symlink''"
| "classLabel EmbeddedRepository = lit ''commit (submodule)''"
| "classLabel Unknown = lit ''unknown''"

text \<open>
  Two well-formed entries used as examples, and the entries that stand for them: the
  first is the payload \<^verbatim>\<open>"100644 hello.txt\\0"\<close> followed by the bytes 0 to 19.
\<close>

definition helloRaw :: raw_entry where
  "helloRaw = \<lparr>raw_mode = bytes ''100644'', raw_name = bytes ''hello.txt'',
                raw_hash = map of_nat [0..<20]\<rparr>"

definition srcRaw :: raw_entry where
  "srcRaw = \<lparr>raw_mode = bytes ''40000'', raw_name = bytes ''src'',
              raw_hash = map of_nat [100..<120]\<rparr>"

definition helloEntry :: tree_entry where
  "helloEntry = \<lparr>entry_mode = lit ''100644'', entry_typeStr = lit ''blob'',
      entry_hash = lit ''000102030405060708090a0b0c0d0e0f10111213'',
      entry_name = lit ''hello.txt''\<rparr>"

definition srcEntry :: tree_entry where
  "srcEntry = \<lparr>entry_mode = lit ''40000'', entry_typeStr = lit ''tree'',
      entry_hash = lit ''6465666768696a6b6c6d6e6f7071727374757677'',
      entry_name = lit ''src''\<rparr>"

text \<open>An entry whose mode token is none of the five that the source knows.\<close>

definition oddRaw :: raw_entry where
  "oddRaw = \<lparr>raw_mode = bytes ''99999'', raw_name = bytes ''odd'',
              raw_hash = map of_nat [0..<20]\<rparr>"

definition oddEntry :: tree_entry where
  "oddEntry = \<lparr>entry_mode = lit ''99999'', entry_typeStr = lit ''unknown'',
      entry_hash = lit ''000102030405060708090a0b0c0d0e0f10111213'',
      entry_name = lit ''odd''\<rparr>"

text \<open>
  A decompressor for the examples: the data is stored as it is, and empty input is an
  error.
\<close>

definition storedInflate :: "buffer \<Rightarrow> error + buffer" where
  "storedInflate compressedData =
     (if compressedData = [] then Inl (Error ''unexpected end of file'')
      else Inr compressedData)"

text \<open>
  What holds of the decoder's state while a multi-byte sequence is pending: the next
  byte must be a continuation byte, and the bytes read so far already force the code
  point to be U+0080 or above.
\<close>

definition pending_ok :: "nat \<Rightarrow> nat \<Rightarrow> nat \<Rightarrow> nat \<Rightarrow> bool" where
  "pending_ok needed cp lower upper \<longleftrightarrow>
     needed = 0 \<or>
     (0x80 \<le> lower \<and> upper \<le> 0xBF \<and>
      ((needed = 1 \<and> 128 \<le> cp * 64 + (lower - 0x80)) \<or>
       (needed = 2 \<and> 2 \<le> cp * 64 + (lower - 0x80)) \<or>
       (needed = 3 \<and> 1 \<le> cp * 64 + (lower - 0x80))))"


section \<open>Facts about the platform functions\<close>

lemma pending_ok_initial [simp]: "pending_ok 0 cp lower upper"
  by (simp add: pending_ok_def)

lemma pending_ok_lead2: "0xC2 \<le> n \<Longrightarrow> n \<le> 0xDF \<Longrightarrow> pending_ok (Suc 0) (n mod 32) 0x80 0xBF"
  unfolding pending_ok_def by simp presburger

lemma pending_ok_lead3:
  "0xE0 \<le> n \<Longrightarrow> n \<le> 0xEF \<Longrightarrow>
   pending_ok 2 (n mod 16) (if n = 0xE0 then 0xA0 else 0x80) (if n = 0xED then 0x9F else 0xBF)"
  unfolding pending_ok_def by simp presburger

lemma pending_ok_lead4:
  "0xF0 \<le> n \<Longrightarrow> n \<le> 0xF4 \<Longrightarrow>
   pending_ok 3 (n mod 8) (if n = 0xF0 then 0x90 else 0x80) (if n = 0xF4 then 0x8F else 0xBF)"
  unfolding pending_ok_def by simp presburger

lemma pending_ok_next:
  "pending_ok needed cp lower upper \<Longrightarrow> 1 < needed \<Longrightarrow> lower \<le> n \<Longrightarrow> n \<le> upper \<Longrightarrow>
   pending_ok (needed - 1) (cp * 64 + n mod 64) 0x80 0xBF"
  unfolding pending_ok_def by (auto simp: mod_if)

lemma pending_ok_last:
  "pending_ok 1 cp lower upper \<Longrightarrow> lower \<le> n \<Longrightarrow> n \<le> upper \<Longrightarrow> 0x80 \<le> cp * 64 + n mod 64"
  unfolding pending_ok_def by (auto simp: mod_if)

lemma utf8_decode_low:
  "pending_ok needed cp lower upper \<Longrightarrow> u \<in> set (utf8_decode needed cp lower upper bs) \<Longrightarrow>
   u < 0x80 \<Longrightarrow> u \<in> unat ` set bs"
proof (induction needed cp lower upper bs rule: utf8_decode.induct)
  case (1 needed cp lower upper)
  then show ?case by (simp split: if_splits)
next
  case (2 needed cp lower upper b bs)
  note IH = "2.IH" and ok = "2.prems"(1) and mem = "2.prems"(2) and low = "2.prems"(3)
  let ?n = "unat b"
  show ?case
  proof (cases "needed = 0")
    case True
    with 2 show ?thesis
      by (auto simp: Let_def pending_ok_lead2 pending_ok_lead3 pending_ok_lead4
               split: if_splits)
  next
    case False
    show ?thesis
    proof (cases "?n < lower \<or> upper < ?n")
      case True
      with False 2 show ?thesis by (auto simp: Let_def split: if_splits)
    next
      case inrange: False
      show ?thesis
      proof (cases "needed = 1")
        case True
        have eq: "utf8_decode needed cp lower upper (b # bs) =
                  (cp * 64 + ?n mod 64) # utf8_decode 0 0 0x80 0xBF bs"
          using True inrange by simp
        from ok True inrange have "0x80 \<le> cp * 64 + ?n mod 64"
          by (intro pending_ok_last[of cp lower upper]) auto
        with mem eq low have "u \<in> set (utf8_decode 0 0 0x80 0xBF bs)" by auto
        from IH(7)[OF refl False inrange True pending_ok_initial this low]
        show ?thesis by simp
      next
        case more: False
        have eq: "utf8_decode needed cp lower upper (b # bs) =
                  utf8_decode (needed - 1) (cp * 64 + ?n mod 64) 0x80 0xBF bs"
          using False more inrange by simp
        from ok False more inrange
        have "pending_ok (needed - 1) (cp * 64 + ?n mod 64) 0x80 0xBF"
          by (intro pending_ok_next[of needed cp lower upper]) auto
        from IH(8)[OF refl False inrange more this] mem eq low
        show ?thesis by simp
      qed
    qed
  qed
qed

lemma utf16_low: "u \<in> set (utf16 c) \<Longrightarrow> u < 0x80 \<Longrightarrow> u = c"
  by (auto simp: utf16_def split: if_splits)

lemma toString_low: "u \<in> set (toString bs) \<Longrightarrow> u < 0x80 \<Longrightarrow> u \<in> unat ` set bs"
  by (auto simp: toString_def dest!: utf16_low intro: utf8_decode_low[of 0 0 "0x80" "0xBF"])

lemma toString_no_space: "0x20 \<notin> set bs \<Longrightarrow> 0x20 \<notin> set (toString bs)"
proof
  assume a: "0x20 \<notin> set bs" and "0x20 \<in> set (toString bs)"
  then have "(0x20::nat) \<in> unat ` set bs" by (rule_tac toString_low) simp_all
  then obtain b where "b \<in> set bs" "unat b = 0x20" by auto
  then have "b = 0x20" by (simp add: word_unat_eq_iff)
  with \<open>b \<in> set bs\<close> a show False by simp
qed


section \<open>Facts about the tree parser\<close>

lemma indexOf_shift:
  "indexOf (pre @ t) v (length pre + k) = map_option (\<lambda>i. length pre + i) (indexOf t v k)"
  by (simp add: indexOf_def)

lemma indexOf_first: "v \<notin> set m \<Longrightarrow> indexOf (m @ v # rest) v 0 = Some (length m)"
proof -
  assume "v \<notin> set m"
  then have "takeWhile (\<lambda>b. b \<noteq> v) (m @ v # rest) = m"
    by (induction m) auto
  then show ?thesis by (simp add: indexOf_def)
qed

lemma slice_shift: "slice (pre @ t) (length pre + a) (length pre + b) = slice t a b"
  by (simp add: slice_def)

lemma readEntry_shift:
  "readEntry (pre @ t) (length pre + k) =
   map_option (\<lambda>(e, offset). (e, length pre + offset)) (readEntry t k)"
proof -
  have idx: "indexOf (pre @ t) v (Suc (length pre + i)) =
             map_option (\<lambda>j. length pre + j) (indexOf t v (Suc i))" for v i
    using indexOf_shift[of pre t v "Suc i"] by simp
  have sl: "slice (pre @ t) (Suc (length pre + a)) (length pre + b) = slice t (Suc a) b" for a b
    using slice_shift[of pre t "Suc a" b] by simp
  have sl2: "slice (pre @ t) (Suc (length pre + a)) (21 + (length pre + a)) =
             slice t (Suc a) (21 + a)" for a
    using slice_shift[of pre t "Suc a" "21 + a"] by (simp add: add.left_commute)
  show ?thesis
    unfolding readEntry_def Let_def indexOf_shift
    by (auto simp: idx sl sl2 slice_shift add.assoc split: option.splits)
qed

lemma parseTree_loop_shift:
  "parseTree_loop (pre @ t) (length pre + k) (acc' @ acc) = acc' @ parseTree_loop t k acc"
proof (induction t k acc rule: parseTree_loop.induct)
  case (1 content offset entries)
  show ?case
  proof (cases "offset < length content")
    case False
    then show ?thesis
      by (simp add: parseTree_loop.simps[of "pre @ content"] parseTree_loop.simps[of content])
  next
    case True
    show ?thesis
    proof (cases "readEntry content offset")
      case None
      with True show ?thesis
        by (simp add: parseTree_loop.simps[of "pre @ content"] parseTree_loop.simps[of content]
              readEntry_shift)
    next
      case (Some r)
      obtain e offset' where r: "r = (e, offset')" by (cases r)
      from 1[OF True Some[unfolded r] refl] True Some r show ?thesis
        by (simp add: parseTree_loop.simps[of "pre @ content" "length pre + offset"]
              parseTree_loop.simps[of content offset] readEntry_shift)
    qed
  qed
qed

lemma readEntry_fields:
  assumes "0x20 \<notin> set m" "0x00 \<notin> set n" "length h = 20"
  shows "readEntry (m @ 0x20 # n @ 0x00 # h @ rest) 0 =
         Some (\<lparr>entry_mode = toString m, entry_typeStr = modeType (toString m),
                 entry_hash = toHex h, entry_name = toString n\<rparr>,
               length m + length n + 22)"
proof -
  let ?c = "m @ 0x20 # n @ 0x00 # h @ rest"
  have sp: "indexOf ?c 0x20 0 = Some (length m)"
    using assms(1) by (rule indexOf_first)
  have "indexOf ((m @ [0x20]) @ (n @ 0x00 # h @ rest)) 0x00 (length (m @ [0x20]) + 0) =
        map_option (\<lambda>i. length (m @ [0x20]) + i) (indexOf (n @ 0x00 # h @ rest) 0x00 0)"
    by (rule indexOf_shift)
  then have nul: "indexOf ?c 0x00 (Suc (length m)) = Some (Suc (length m + length n))"
    using indexOf_first[OF assms(2), of "h @ rest"] by simp
  show ?thesis
    using assms(3) by (simp add: readEntry_def Let_def sp nul slice_def)
qed

lemma readEntry_entryBytes:
  "wellFormed r \<Longrightarrow> readEntry (entryBytes r @ rest) 0 = Some (decoded r, length (entryBytes r))"
  using readEntry_fields[of "raw_mode r" "raw_name r" "raw_hash r" rest]
  by (simp add: wellFormed_def entryBytes_def decoded_def)

lemma parseTreeEntries_Cons:
  assumes "wellFormed r"
  shows "parseTreeEntries (entryBytes r @ rest) = decoded r # parseTreeEntries rest"
proof -
  have pos: "0 < length (entryBytes r @ rest)" by (simp add: entryBytes_def)
  have "parseTree_loop (entryBytes r @ rest) 0 [] =
        parseTree_loop (entryBytes r @ rest) (length (entryBytes r) + 0) ([decoded r] @ [])"
    using pos readEntry_entryBytes[OF assms, of rest]
    by (subst parseTree_loop.simps) simp
  also have "\<dots> = [decoded r] @ parseTree_loop rest 0 []"
    by (rule parseTree_loop_shift)
  finally show ?thesis by (simp add: parseTreeEntries_def)
qed

lemma parseTreeEntries_stop: "readEntry t 0 = None \<Longrightarrow> parseTreeEntries t = []"
  by (simp add: parseTreeEntries_def parseTree_loop.simps[of t 0])

lemma readEntry_short: "length t < 22 \<Longrightarrow> readEntry t 0 = None"
  using readEntry_offset[of t 0] by (cases "readEntry t 0") auto

lemma parseTreeEntries_encoded:
  "\<forall>r\<in>set rs. wellFormed r \<Longrightarrow> readEntry t 0 = None \<Longrightarrow>
   parseTreeEntries (concat (map entryBytes rs) @ t) = map decoded rs"
  by (induction rs) (simp_all add: parseTreeEntries_stop parseTreeEntries_Cons)


lemma toString_no_nul: "0x00 \<notin> set bs \<Longrightarrow> 0 \<notin> set (toString bs)"
proof
  assume a: "0x00 \<notin> set bs" and "0 \<in> set (toString bs)"
  then have "(0::nat) \<in> unat ` set bs" by (rule_tac toString_low) simp_all
  then obtain b where "b \<in> set bs" "unat b = 0" by auto
  then have "b = 0" by (simp add: word_unat_eq_iff)
  with \<open>b \<in> set bs\<close> a show False by simp
qed

lemma indexOf_slice_free:
  assumes "indexOf buf v byteOffset = Some i"
  shows "v \<notin> set (slice buf byteOffset i)"
proof -
  let ?rest = "drop byteOffset buf"
  from assms have i: "i = byteOffset + length (takeWhile (\<lambda>b. b \<noteq> v) ?rest)"
    by (auto simp: indexOf_def split: if_splits)
  then have "slice buf byteOffset i = takeWhile (\<lambda>b. b \<noteq> v) ?rest"
    by (simp add: slice_def takeWhile_eq_take[symmetric])
  then show ?thesis by (auto dest: set_takeWhileD)
qed

lemma readEntry_separated:
  assumes "readEntry content offset = Some (e, offset')"
  shows "0x20 \<notin> set (entry_mode e)" and "0 \<notin> set (entry_name e)"
  using assms
  by (auto simp: readEntry_def Let_def split: option.splits if_splits
           dest!: indexOf_slice_free toString_no_space toString_no_nul)

lemma readEntry_typeStr:
  "readEntry content offset = Some (e, offset') \<Longrightarrow> entry_typeStr e = modeType (entry_mode e)"
  by (auto simp: readEntry_def Let_def split: option.splits if_splits)

lemma readEntry_hash_at:
  assumes "readEntry content offset = Some (e, offset')"
  shows "entry_hash e = toHex (slice content (offset' - 20) offset')" and "20 \<le> offset'"
  using assms
  by (auto simp: readEntry_def Let_def split: option.splits if_splits)

lemma readEntry_hash:
  assumes "readEntry content offset = Some (e, offset')"
  shows "\<exists>i. i + 20 \<le> length content \<and> entry_hash e = toHex (slice content i (i + 20))"
proof -
  from readEntry_hash_at[OF assms] readEntry_offset(2)[OF assms]
  have "(offset' - 20) + 20 \<le> length content"
    and "entry_hash e = toHex (slice content (offset' - 20) ((offset' - 20) + 20))"
    by simp_all
  then show ?thesis by blast
qed

lemma hexDigit_in: "d < 16 \<Longrightarrow> hexDigit d \<in> set (lit ''0123456789abcdef'')"
proof -
  assume "d < 16"
  then have "d = 0 \<or> d = 1 \<or> d = 2 \<or> d = 3 \<or> d = 4 \<or> d = 5 \<or> d = 6 \<or> d = 7 \<or> d = 8
      \<or> d = 9 \<or> d = 10 \<or> d = 11 \<or> d = 12 \<or> d = 13 \<or> d = 14 \<or> d = 15"
    by arith
  then show ?thesis by (auto simp: hexDigit_def lit_def)
qed

lemma toHex_length: "length (toHex buf) = 2 * length buf"
  by (induction buf) (simp_all add: toHex_def)

lemma toHex_digits: "set (toHex buf) \<subseteq> set (lit ''0123456789abcdef'')"
proof -
  have "unat b div 16 < 16" for b :: byte
    using unsigned_less[of b, where 'a = nat] by simp
  then show ?thesis
    by (auto simp: toHex_def intro!: hexDigit_in)
qed

lemma slice_length: "i + n \<le> length buf \<Longrightarrow> length (slice buf i (i + n)) = n"
  by (simp add: slice_def)

lemma parseTree_loop_all:
  "(\<forall>offset e offset'. readEntry content offset = Some (e, offset') \<longrightarrow> P e) \<Longrightarrow>
   (\<forall>e\<in>set entries. P e) \<Longrightarrow> \<forall>e\<in>set (parseTree_loop content offset entries). P e"
proof (induction content offset entries rule: parseTree_loop.induct)
  case (1 content offset entries)
  show ?case
  proof (cases "offset < length content")
    case False
    with 1 show ?thesis by (simp add: parseTree_loop.simps[of content offset])
  next
    case True
    show ?thesis
    proof (cases "readEntry content offset")
      case None
      with True 1 show ?thesis by (simp add: parseTree_loop.simps[of content offset])
    next
      case (Some r)
      obtain e offset' where r: "r = (e, offset')" by (cases r)
      from "1.prems" Some r have "\<forall>e\<in>set (entries @ [e]). P e" by auto
      from "1.IH"[OF True Some[unfolded r] refl "1.prems"(1) this] True Some r show ?thesis
        by (simp add: parseTree_loop.simps[of content offset])
    qed
  qed
qed

lemma parseTreeEntries_all:
  assumes step: "\<And>offset e offset'. readEntry content offset = Some (e, offset') \<Longrightarrow> P e"
    and mem: "e \<in> set (parseTreeEntries content)"
  shows "P e"
proof -
  have "\<forall>offset e offset'. readEntry content offset = Some (e, offset') \<longrightarrow> P e"
    using step by blast
  then have "\<forall>e\<in>set (parseTree_loop content 0 []). P e"
    by (rule parseTree_loop_all) simp
  with mem show ?thesis by (simp add: parseTreeEntries_def)
qed

lemma parseTree_loop_bound:
  "22 * length (parseTree_loop content offset entries) + offset
   \<le> 22 * length entries + max offset (length content)"
proof (induction content offset entries rule: parseTree_loop.induct)
  case (1 content offset entries)
  show ?case
  proof (cases "offset < length content")
    case False
    then show ?thesis by (simp add: parseTree_loop.simps[of content offset])
  next
    case True
    show ?thesis
    proof (cases "readEntry content offset")
      case None
      with True show ?thesis by (simp add: parseTree_loop.simps[of content offset])
    next
      case (Some r)
      obtain e offset' where r: "r = (e, offset')" by (cases r)
      from readEntry_offset[OF Some[unfolded r]]
      have adv: "offset + 22 \<le> offset'" "offset' \<le> length content" .
      from 1[OF True Some[unfolded r] refl] adv True Some r show ?thesis
        by (simp add: parseTree_loop.simps[of content offset] max_def split: if_splits)
    qed
  qed
qed

lemma parseTree_fuel_enough:
  "(length content - offset) div 22 < fuel \<Longrightarrow>
   parseTree_fuel fuel content offset entries = Some (parseTree_loop content offset entries)"
proof (induction fuel arbitrary: offset entries)
  case 0
  then show ?case by simp
next
  case (Suc fuel)
  show ?case
  proof (cases "offset < length content")
    case False
    then show ?thesis by (simp add: parseTree_loop.simps[of content offset])
  next
    case True
    show ?thesis
    proof (cases "readEntry content offset")
      case None
      with True show ?thesis by (simp add: parseTree_loop.simps[of content offset])
    next
      case (Some r)
      obtain e offset' where r: "r = (e, offset')" by (cases r)
      from readEntry_offset[OF Some[unfolded r]]
      have adv: "offset + 22 \<le> offset'" "offset' \<le> length content" .
      then have "(length content - offset') div 22 < fuel"
        using Suc.prems by (simp add: less_Suc_eq_le)
      from Suc.IH[OF this] True Some r show ?thesis
        by (simp add: parseTree_loop.simps[of content offset])
    qed
  qed
qed



lemma readEntry_missingField:
  assumes "missingField t"
  shows "readEntry t 0 = None"
proof (cases "0x20 \<in> set t")
  case False
  then show ?thesis by (simp add: readEntry_def indexOf_def)
next
  case True
  let ?k = "length (takeWhile (\<lambda>b. b \<noteq> 0x20) t)"
  let ?am = "drop 1 (dropWhile (\<lambda>b. b \<noteq> 0x20) t)"
  have am: "drop (Suc ?k) t = ?am"
    by (simp add: dropWhile_eq_drop)
  have sp: "indexOf t 0x20 0 = Some ?k"
    using True by (simp add: indexOf_def)
  from assms True have miss:
    "0x00 \<notin> set ?am \<or> length (drop 1 (dropWhile (\<lambda>b. b \<noteq> 0x00) ?am)) < 20"
    by (simp add: missingField_def Let_def)
  show ?thesis
  proof (cases "0x00 \<in> set ?am")
    case False
    then have "indexOf t 0x00 (Suc ?k) = None"
      by (simp only: indexOf_def am if_False)
    with sp show ?thesis by (simp add: readEntry_def Let_def)
  next
    case nul: True
    let ?j = "length (takeWhile (\<lambda>b. b \<noteq> 0x00) ?am)"
    have ix: "indexOf t 0x00 (Suc ?k) = Some (Suc ?k + ?j)"
      using nul by (simp only: indexOf_def am if_True)
    from miss nul have "length (drop 1 (dropWhile (\<lambda>b. b \<noteq> 0x00) ?am)) < 20" by simp
    then have "length ?am - ?j - 1 < 20"
      by (simp add: dropWhile_eq_drop)
    moreover have "length ?am = length t - Suc ?k"
      using am[symmetric] by simp
    ultimately have "length t < Suc ?k + ?j + 1 + 20" by arith
    with sp ix show ?thesis by (simp add: readEntry_def Let_def)
  qed
qed

lemma parseTree_loop_stop:
  assumes "missingField (drop offset content)"
  shows "parseTree_loop content offset entries = entries"
proof (cases "offset < length content")
  case False
  then show ?thesis by (simp add: parseTree_loop.simps[of content offset])
next
  case True
  define before where "before = take offset content"
  define rest where "rest = drop offset content"
  from True have len: "length before = offset" and content: "content = before @ rest"
    by (simp_all add: before_def rest_def)
  have "readEntry rest 0 = None"
    using assms unfolding rest_def by (rule readEntry_missingField)
  then have "readEntry (before @ rest) (length before + 0) = None"
    by (simp only: readEntry_shift option.map)
  then have "readEntry content offset = None"
    by (simp add: len content)
  then show ?thesis by (simp add: parseTree_loop.simps[of content offset])
qed

lemma parseTreeEntries_Nil: "parseTreeEntries [] = []"
  by (rule parseTreeEntries_stop) (rule readEntry_short, simp)

lemma toString_invalid_lead:
  assumes "(0x80 \<le> unat b \<and> unat b \<le> 0xC1) \<or> 0xF5 \<le> unat b"
  shows "toString (b # rest) = 0xFFFD # toString rest"
  using assms by (auto simp: toString_def utf16_def)

section \<open>Facts about the object decoder\<close>

lemma utf8_decode_ascii_after:
  "unat a < 0x80 \<Longrightarrow> needed = 0 \<or> 0x80 \<le> lower \<Longrightarrow>
   utf8_decode needed cp lower upper (bs @ a # rest) =
   utf8_decode needed cp lower upper bs @ unat a # utf8_decode 0 0 0x80 0xBF rest"
proof (induction needed cp lower upper bs rule: utf8_decode.induct)
  case (1 needed cp lower upper)
  then show ?case by auto
next
  case (2 needed cp lower upper b bs)
  note IH = "2.IH" and a = "2.prems"(1) and st = "2.prems"(2)
  let ?n = "unat b"
  show ?case
  proof (cases "needed = 0")
    case True
    with IH(1-5)[OF refl True] a show ?thesis
      by (simp add: Let_def)
  next
    case False
    with st have lower: "0x80 \<le> lower" by simp
    show ?thesis
    proof (cases "?n < lower \<or> upper < ?n")
      case True
      from IH(6)[OF refl False True a] True False show ?thesis
        by (simp del: utf8_decode.simps add: utf8_decode.simps(2)[of needed] Let_def)
    next
      case inrange: False
      show ?thesis
      proof (cases "needed = 1")
        case True
        from IH(7)[OF refl False inrange True a] True inrange show ?thesis by simp
      next
        case more: False
        from IH(8)[OF refl False inrange more a] False more inrange show ?thesis by simp
      qed
    qed
  qed
qed

lemma toString_ascii_after:
  "unat a < 0x80 \<Longrightarrow> toString (bs @ a # rest) = toString bs @ unat a # toString rest"
  by (simp add: toString_def utf8_decode_ascii_after utf16_def)

lemma split_no_sep: "sep \<notin> set s \<Longrightarrow> split s sep = [s]"
  by (induction s) auto

lemma split_at_sep: "sep \<notin> set s \<Longrightarrow> split (s @ sep # t) sep = s # split t sep"
  by (induction s) auto

lemma headerFields_no_space: "0x20 \<notin> set header \<Longrightarrow> headerFields header = (header, None)"
  by (simp add: headerFields_def split_no_sep)

lemma parseInt_undefined: "parseInt None = None"
  by (simp add: parseInt_def lit_def isWhiteSpace_def isDigit_def)

lemma parseDecompressed_header:
  assumes "0x00 \<notin> set hdr"
  shows "parseDecompressed (hdr @ 0x00 # payload) =
         (if parseInt (snd (headerFields (toString hdr))) \<noteq> Some (int (length payload))
          then Inl (Error ''Size mismatch'')
          else Inr \<lparr>obj_type = fst (headerFields (toString hdr)),
                    obj_size = int (length payload), obj_content = payload\<rparr>)"
  using indexOf_first[OF assms, of payload]
  by (simp add: parseDecompressed_def Let_def slice_def split: prod.splits option.splits)

lemma parseDecompressed_no_terminator:
  "0x00 \<notin> set d \<Longrightarrow> parseDecompressed d = Inl (Error ''Invalid Git object format'')"
  by (simp add: parseDecompressed_def indexOf_def)

lemma split_at_first:
  "v \<in> set d \<Longrightarrow> \<exists>hdr payload. d = hdr @ v # payload \<and> v \<notin> set hdr"
  by (metis split_list_first)

lemma parseDecompressed_cases:
  assumes "0x00 \<in> set d"
  shows "(\<exists>obj. parseDecompressed d = Inr obj) \<or> parseDecompressed d = Inl (Error ''Size mismatch'')"
proof -
  from split_at_first[OF assms] obtain hdr payload
    where "d = hdr @ 0x00 # payload" "0x00 \<notin> set hdr" by blast
  then show ?thesis by (simp add: parseDecompressed_header)
qed

lemma inflateObject_size:
  assumes "inflateObject inflate compressedData = Inr obj"
  shows "obj_size obj = int (length (obj_content obj))"
  using assms
  by (auto simp: inflateObject_def parseDecompressed_def Let_def
           split: sum.splits option.splits prod.splits if_splits)

lemma split_nonempty: "split s sep \<noteq> []"
  by (induction s) (auto split: list.splits)

lemma hd_split: "hd (split s sep) = takeWhile (\<lambda>u. u \<noteq> sep) s"
  by (induction s) (auto simp: split_nonempty split: list.splits)

lemma headerFields_type: "fst (headerFields header) = takeWhile (\<lambda>u. u \<noteq> 0x20) header"
  by (simp add: headerFields_def hd_split)

lemma headerFields_at_space:
  assumes "0x20 \<notin> set typeText"
  shows "headerFields (typeText @ 0x20 # rest) =
         (typeText, Some (takeWhile (\<lambda>u. u \<noteq> 0x20) rest))"
proof -
  obtain p ps where sp: "split rest 0x20 = p # ps"
    using split_nonempty[of rest "0x20"] by (cases "split rest 0x20") auto
  then have "p = takeWhile (\<lambda>u. u \<noteq> 0x20) rest"
    using hd_split[of rest "0x20"] by simp
  with sp split_at_sep[OF assms, of rest] show ?thesis
    by (simp add: headerFields_def)
qed

lemma parseDecompressed_fields:
  assumes "0x00 \<notin> set t" "0x20 \<notin> set t" "0x00 \<notin> set s"
  shows "parseDecompressed (t @ [0x20] @ s @ [0x00] @ payload) =
         (if parseInt (Some (takeWhile (\<lambda>u. u \<noteq> 0x20) (toString s))) = Some (int (length payload))
          then Inr \<lparr>obj_type = toString t, obj_size = int (length payload),
                    obj_content = payload\<rparr>
          else Inl (Error ''Size mismatch''))"
proof -
  have ts: "toString (t @ 0x20 # s) = toString t @ 0x20 # toString s"
    using toString_ascii_after[of "0x20" t s] by simp
  from assms(2) have "0x20 \<notin> set (toString t)" by (rule toString_no_space)
  then have hf: "headerFields (toString (t @ 0x20 # s)) =
      (toString t, Some (takeWhile (\<lambda>u. u \<noteq> 0x20) (toString s)))"
    unfolding ts by (rule headerFields_at_space)
  from assms have "0x00 \<notin> set (t @ 0x20 # s)" by simp
  from parseDecompressed_header[OF this, of payload] hf show ?thesis by simp
qed

section \<open>The example entries\<close>

lemma wellFormed_helloRaw: "wellFormed helloRaw"
  by (simp add: wellFormed_def helloRaw_def bytes_def)

lemma wellFormed_srcRaw: "wellFormed srcRaw"
  by (simp add: wellFormed_def srcRaw_def bytes_def upt_rec)

lemma decoded_helloRaw: "decoded helloRaw = helloEntry"
  by (simp add: decoded_def helloRaw_def helloEntry_def bytes_def lit_def toString_def utf16_def
        toHex_def hexDigit_def modeType_def upt_rec)

lemma decoded_srcRaw: "decoded srcRaw = srcEntry"
  by (simp add: decoded_def srcRaw_def srcEntry_def bytes_def lit_def toString_def utf16_def
        toHex_def hexDigit_def modeType_def upt_rec)


lemma wellFormed_oddRaw: "wellFormed oddRaw"
  by (simp add: wellFormed_def oddRaw_def bytes_def)

lemma decoded_oddRaw: "decoded oddRaw = oddEntry"
  by (simp add: decoded_def oddRaw_def oddEntry_def bytes_def lit_def toString_def utf16_def
        toHex_def hexDigit_def modeType_def upt_rec)

lemma parse_helloRaw: "parseTreeEntries (entryBytes helloRaw) = [helloEntry]"
  using parseTreeEntries_Cons[OF wellFormed_helloRaw, of "[]"]
  by (simp add: parseTreeEntries_Nil decoded_helloRaw)

lemma parse_oddRaw: "parseTreeEntries (entryBytes oddRaw) = [oddEntry]"
  using parseTreeEntries_Cons[OF wellFormed_oddRaw, of "[]"]
  by (simp add: parseTreeEntries_Nil decoded_oddRaw)

lemma modeType_spec: "modeType m = classLabel (spec_classification m)"
  by (simp add: modeType_def spec_classification_def)

lemma replicate_16:
  "replicate 16 x = [x, x, x, x, x, x, x, x, x, x, x, x, x, x, x, x]"
  by (simp add: eval_nat_numeral)

lemmas header_eval = parseDecompressed_def indexOf_def slice_def bytes_def lit_def toString_def
  utf16_def headerFields_def parseInt_def isWhiteSpace_def isDigit_def digitsValue_def Let_def

section \<open>Properties\<close>

text \<open>
  C1 does not hold as the specification states it: the error of a size mismatch is
  the message \<^verbatim>\<open>Size mismatch\<close> and nothing else. Declared sizes 4 and 3 against a
  payload of 5 bytes, and a declared size 4 against a payload of 7 bytes, give one and
  the same error, so neither length can be read off it.
\<close>

theorem C1_counterexample:
  "parseDecompressed (bytes ''blob 4'' @ [0x00] @ bytes ''hello'') = Inl (Error ''Size mismatch'') \<and>
   parseDecompressed (bytes ''blob 3'' @ [0x00] @ bytes ''hello'') = Inl (Error ''Size mismatch'') \<and>
   parseDecompressed (bytes ''blob 4'' @ [0x00] @ bytes ''hello!!'') = Inl (Error ''Size mismatch'')"
  by (simp add: header_eval)


text \<open>
  C1, as amended. Whenever decoding succeeds, the size of the object returned is the
  length of its content, so an object with a size that differs from its content's length
  is never returned: the size is the number parsed from the header and the content is
  the bytes after the first zero byte. The decompressed bytes \<^verbatim>\<open>"blob 5\\0hello"\<close> give type blob, size
  5 and content hello. Whenever the number parsed from the header (or NaN) is not the
  length of the bytes after the first zero byte, decoding fails with the error whose
  message is \<^verbatim>\<open>Size mismatch\<close>, which carries no length; \<^verbatim>\<open>"blob 4\\0hello"\<close> fails so.
\<close>

theorem C1_size_checked:
  "(inflateObject inflate compressedData = Inr obj \<longrightarrow>
      obj_size obj = int (length (obj_content obj))) \<and>
   (inflate compressedData = Inr (hdr @ [0x00] @ payload) \<and> 0x00 \<notin> set hdr \<and>
    inflateObject inflate compressedData = Inr obj \<longrightarrow>
      parseInt (snd (headerFields (toString hdr))) = Some (obj_size obj) \<and>
      obj_content obj = payload) \<and>
   (inflate compressedData = Inr (hdr @ [0x00] @ payload) \<and> 0x00 \<notin> set hdr \<and>
    parseInt (snd (headerFields (toString hdr))) \<noteq> Some (int (length payload)) \<longrightarrow>
      inflateObject inflate compressedData = Inl (Error ''Size mismatch'')) \<and>
   parseDecompressed (bytes ''blob 5'' @ [0x00] @ bytes ''hello'') =
     Inr \<lparr>obj_type = lit ''blob'', obj_size = 5, obj_content = bytes ''hello''\<rparr> \<and>
   parseDecompressed (bytes ''blob 4'' @ [0x00] @ bytes ''hello'') =
     Inl (Error ''Size mismatch'')"
proof (intro conjI impI)
  assume "inflateObject inflate compressedData = Inr obj"
  then show "obj_size obj = int (length (obj_content obj))" by (rule inflateObject_size)
next
  assume a: "inflate compressedData = Inr (hdr @ [0x00] @ payload) \<and> 0x00 \<notin> set hdr \<and>
    inflateObject inflate compressedData = Inr obj"
  then have "parseDecompressed (hdr @ 0x00 # payload) = Inr obj"
    by (auto simp: inflateObject_def)
  with a show "parseInt (snd (headerFields (toString hdr))) = Some (obj_size obj)"
    and "obj_content obj = payload"
    by (auto simp: parseDecompressed_header split: if_splits)
next
  assume "inflate compressedData = Inr (hdr @ [0x00] @ payload) \<and> 0x00 \<notin> set hdr \<and>
    parseInt (snd (headerFields (toString hdr))) \<noteq> Some (int (length payload))"
  then show "inflateObject inflate compressedData = Inl (Error ''Size mismatch'')"
    by (simp add: inflateObject_def parseDecompressed_header)
qed (simp_all add: header_eval)

theorem C1_size_checked_witness:
  "inflateObject storedInflate (bytes ''blob 5'' @ [0x00] @ bytes ''hello'') =
     Inr \<lparr>obj_type = lit ''blob'', obj_size = 5, obj_content = bytes ''hello''\<rparr> \<and>
   (5::int) = int (length (bytes ''hello'')) \<and>
   0x00 \<notin> set (bytes ''blob 5'') \<and>
   parseInt (snd (headerFields (toString (bytes ''blob 5'')))) = Some 5 \<and>
   0x00 \<notin> set (bytes ''blob 4'') \<and>
   parseInt (snd (headerFields (toString (bytes ''blob 4'')))) = Some 4 \<and>
   inflateObject storedInflate (bytes ''blob 4'' @ [0x00] @ bytes ''hello'') =
     Inl (Error ''Size mismatch'')"
proof -
  let ?obj = "\<lparr>obj_type = lit ''blob'', obj_size = 5, obj_content = bytes ''hello''\<rparr>"
  have st: "storedInflate (bytes ''blob 5'' @ [0x00] @ bytes ''hello'') =
      Inr (bytes ''blob 5'' @ [0x00] @ bytes ''hello'')"
    "storedInflate (bytes ''blob 4'' @ [0x00] @ bytes ''hello'') =
      Inr (bytes ''blob 4'' @ [0x00] @ bytes ''hello'')"
    by (simp_all add: storedInflate_def)
  have five: "inflateObject storedInflate (bytes ''blob 5'' @ [0x00] @ bytes ''hello'') = Inr ?obj"
    by (simp add: inflateObject_def storedInflate_def header_eval)
  have z5: "0x00 \<notin> set (bytes ''blob 5'')"
    by (simp add: bytes_def)
  have four: "0x00 \<notin> set (bytes ''blob 4'')"
    "parseInt (snd (headerFields (toString (bytes ''blob 4'')))) = Some 4"
    "parseInt (snd (headerFields (toString (bytes ''blob 4'')))) \<noteq>
       Some (int (length (bytes ''hello'')))"
    by (simp_all add: header_eval)
  note inst5 = C1_size_checked[where inflate = storedInflate
      and compressedData = "bytes ''blob 5'' @ [0x00] @ bytes ''hello''" and obj = ?obj
      and hdr = "bytes ''blob 5''" and payload = "bytes ''hello''"]
  from inst5 five have "obj_size ?obj = int (length (obj_content ?obj))" by blast
  then have len: "(5::int) = int (length (bytes ''hello''))" by simp
  from inst5 five st(1) z5
  have "parseInt (snd (headerFields (toString (bytes ''blob 5'')))) = Some (obj_size ?obj)"
    by blast
  then have p5: "parseInt (snd (headerFields (toString (bytes ''blob 5'')))) = Some 5"
    by simp
  from C1_size_checked[where inflate = storedInflate
      and compressedData = "bytes ''blob 4'' @ [0x00] @ bytes ''hello''" and obj = ?obj
      and hdr = "bytes ''blob 4''" and payload = "bytes ''hello''"] four st(2)
  have "inflateObject storedInflate (bytes ''blob 4'' @ [0x00] @ bytes ''hello'') =
        Inl (Error ''Size mismatch'')" by blast
  with five len z5 p5 four(1,2) show ?thesis by blast
qed

text \<open>
  C2 does not hold as the specification states it: a header with an unknown type
  token is accepted; a size token that only starts with digits is accepted as the
  number they spell; and a header without a space or with a size that is no number
  fails with the error of a size mismatch, not with the error that the source keeps for
  a malformed object.
\<close>

theorem C2_counterexample:
  "parseDecompressed (bytes ''foo 5'' @ [0x00] @ bytes ''hello'') =
     Inr \<lparr>obj_type = lit ''foo'', obj_size = 5, obj_content = bytes ''hello''\<rparr> \<and>
   parseDecompressed (bytes ''blob 5abc'' @ [0x00] @ bytes ''hello'') =
     Inr \<lparr>obj_type = lit ''blob'', obj_size = 5, obj_content = bytes ''hello''\<rparr> \<and>
   parseDecompressed (bytes ''blob'' @ [0x00] @ bytes ''hello'') = Inl (Error ''Size mismatch'') \<and>
   parseDecompressed (bytes ''blob five'' @ [0x00] @ bytes ''hello'') =
     Inl (Error ''Size mismatch'') \<and>
   parseDecompressed (bytes ''blob 5'') = Inl (Error ''Invalid Git object format'')"
  by (simp add: header_eval)

text \<open>
  C2, as amended. Decoding fails with the error \<^verbatim>\<open>Invalid Git object format\<close> exactly
  when the decompressed bytes hold no zero byte. When they hold one, the only error is
  \<^verbatim>\<open>Size mismatch\<close>: it is the result when the header has no space, and when the size
  token parses to NaN. For every header and payload, decoding succeeds exactly when the
  number that \<^verbatim>\<open>parseInt\<close> reads from the size token (the text between the first space
  and the next one, of which only the leading digits count) is the length of the
  payload, and the type returned is then the text before the first space: the type
  token is checked against no list and has no part in the outcome.
\<close>

theorem C2_header_errors:
  "(parseDecompressed d = Inl (Error ''Invalid Git object format'') \<longleftrightarrow> 0x00 \<notin> set d) \<and>
   (0x00 \<in> set d \<longrightarrow>
      (\<exists>obj. parseDecompressed d = Inr obj) \<or>
      parseDecompressed d = Inl (Error ''Size mismatch'')) \<and>
   (0x00 \<notin> set hdr \<and> 0x20 \<notin> set hdr \<longrightarrow>
      parseDecompressed (hdr @ [0x00] @ payload) = Inl (Error ''Size mismatch'')) \<and>
   (0x00 \<notin> set hdr \<and> parseInt (snd (headerFields (toString hdr))) = None \<longrightarrow>
      parseDecompressed (hdr @ [0x00] @ payload) = Inl (Error ''Size mismatch'')) \<and>
   (0x00 \<notin> set hdr \<longrightarrow>
      parseDecompressed (hdr @ [0x00] @ payload) =
        (if parseInt (snd (headerFields (toString hdr))) = Some (int (length payload))
         then Inr \<lparr>obj_type = takeWhile (\<lambda>u. u \<noteq> 0x20) (toString hdr),
                   obj_size = int (length payload), obj_content = payload\<rparr>
         else Inl (Error ''Size mismatch''))) \<and>
   (0x00 \<notin> set t \<and> 0x20 \<notin> set t \<and> 0x00 \<notin> set s \<longrightarrow>
      parseDecompressed (t @ [0x20] @ s @ [0x00] @ payload) =
        (if parseInt (Some (takeWhile (\<lambda>u. u \<noteq> 0x20) (toString s))) =
              Some (int (length payload))
         then Inr \<lparr>obj_type = toString t, obj_size = int (length payload),
                   obj_content = payload\<rparr>
         else Inl (Error ''Size mismatch'')))"
proof (intro conjI impI)
  show "parseDecompressed d = Inl (Error ''Invalid Git object format'') \<longleftrightarrow> 0x00 \<notin> set d"
  proof (cases "0x00 \<in> set d")
    case True
    from parseDecompressed_cases[OF this] True show ?thesis by auto
  next
    case False
    then show ?thesis by (simp add: parseDecompressed_no_terminator)
  qed
next
  assume "0x00 \<in> set d"
  then show "(\<exists>obj. parseDecompressed d = Inr obj) \<or>
      parseDecompressed d = Inl (Error ''Size mismatch'')"
    by (rule parseDecompressed_cases)
next
  assume a: "0x00 \<notin> set hdr \<and> 0x20 \<notin> set hdr"
  then have "headerFields (toString hdr) = (toString hdr, None)"
    by (intro headerFields_no_space toString_no_space) simp
  with a show "parseDecompressed (hdr @ [0x00] @ payload) = Inl (Error ''Size mismatch'')"
    by (simp add: parseDecompressed_header parseInt_undefined)
next
  assume "0x00 \<notin> set hdr \<and> parseInt (snd (headerFields (toString hdr))) = None"
  then show "parseDecompressed (hdr @ [0x00] @ payload) = Inl (Error ''Size mismatch'')"
    by (simp add: parseDecompressed_header)
next
  assume "0x00 \<notin> set hdr"
  then show "parseDecompressed (hdr @ [0x00] @ payload) =
        (if parseInt (snd (headerFields (toString hdr))) = Some (int (length payload))
         then Inr \<lparr>obj_type = takeWhile (\<lambda>u. u \<noteq> 0x20) (toString hdr),
                   obj_size = int (length payload), obj_content = payload\<rparr>
         else Inl (Error ''Size mismatch''))"
    by (simp add: parseDecompressed_header headerFields_type)
next
  assume "0x00 \<notin> set t \<and> 0x20 \<notin> set t \<and> 0x00 \<notin> set s"
  then have "0x00 \<notin> set t" "0x20 \<notin> set t" "0x00 \<notin> set s" by simp_all
  then show "parseDecompressed (t @ [0x20] @ s @ [0x00] @ payload) =
        (if parseInt (Some (takeWhile (\<lambda>u. u \<noteq> 0x20) (toString s))) =
              Some (int (length payload))
         then Inr \<lparr>obj_type = toString t, obj_size = int (length payload),
                   obj_content = payload\<rparr>
         else Inl (Error ''Size mismatch''))"
    by (rule parseDecompressed_fields)
qed

theorem C2_header_errors_witness:
  "0x00 \<in> set (bytes ''blob 5'' @ [0x00] @ bytes ''hello'') \<and>
   parseDecompressed (bytes ''blob 5'' @ [0x00] @ bytes ''hello'') =
     Inr \<lparr>obj_type = lit ''blob'', obj_size = 5, obj_content = bytes ''hello''\<rparr> \<and>
   0x00 \<notin> set (bytes ''blob'') \<and> 0x20 \<notin> set (bytes ''blob'') \<and>
   parseDecompressed (bytes ''blob'' @ [0x00] @ bytes ''hello'') = Inl (Error ''Size mismatch'') \<and>
   0x00 \<notin> set (bytes ''blob five'') \<and>
   parseInt (snd (headerFields (toString (bytes ''blob five'')))) = None \<and>
   parseDecompressed (bytes ''blob five'' @ [0x00] @ bytes ''hello'') =
     Inl (Error ''Size mismatch'') \<and>
   0x00 \<notin> set (bytes ''foo 5'') \<and>
   parseDecompressed (bytes ''foo 5'' @ [0x00] @ bytes ''hello'') =
     Inr \<lparr>obj_type = lit ''foo'', obj_size = 5, obj_content = bytes ''hello''\<rparr> \<and>
   0x00 \<notin> set (bytes ''foo'') \<and> 0x20 \<notin> set (bytes ''foo'') \<and>
   0x00 \<notin> set (bytes ''5abc'') \<and>
   parseDecompressed (bytes ''foo'' @ [0x20] @ bytes ''5abc'' @ [0x00] @ bytes ''hello'') =
     Inr \<lparr>obj_type = lit ''foo'', obj_size = 5, obj_content = bytes ''hello''\<rparr>"
proof -
  have pre: "0x00 \<in> set (bytes ''blob 5'' @ [0x00] @ bytes ''hello'')"
    "0x00 \<notin> set (bytes ''blob'')" "0x20 \<notin> set (bytes ''blob'')"
    "0x00 \<notin> set (bytes ''blob five'')"
    "parseInt (snd (headerFields (toString (bytes ''blob five'')))) = None"
    "0x00 \<notin> set (bytes ''foo 5'')"
    "0x00 \<notin> set (bytes ''foo'')" "0x20 \<notin> set (bytes ''foo'')"
    "0x00 \<notin> set (bytes ''5abc'')"
    by (simp_all add: header_eval)
  have foo: "toString (bytes ''foo'') = lit ''foo''"
    "takeWhile (\<lambda>u. u \<noteq> 0x20) (toString (bytes ''foo 5'')) = lit ''foo''"
    by (simp_all add: header_eval)
  have num: "parseInt (snd (headerFields (toString (bytes ''foo 5'')))) =
      Some (int (length (bytes ''hello'')))"
    "parseInt (Some (takeWhile (\<lambda>u. u \<noteq> 0x20) (toString (bytes ''5abc'')))) =
      Some (int (length (bytes ''hello'')))"
    "int (length (bytes ''hello'')) = 5"
    by (simp_all add: header_eval)
  have five: "parseDecompressed (bytes ''blob 5'' @ [0x00] @ bytes ''hello'') =
     Inr \<lparr>obj_type = lit ''blob'', obj_size = 5, obj_content = bytes ''hello''\<rparr>"
    by (simp add: header_eval)
  note inst = C2_header_errors[where d = "bytes ''blob 5'' @ [0x00] @ bytes ''hello''"
      and hdr = "bytes ''blob''" and payload = "bytes ''hello''" and t = "bytes ''foo''"
      and s = "bytes ''5abc''"]
  note inst' = C2_header_errors[where d = "[]" and hdr = "bytes ''blob five''"
      and payload = "bytes ''hello''" and t = "[]" and s = "[]"]
  note inst'' = C2_header_errors[where d = "[]" and hdr = "bytes ''foo 5''"
      and payload = "bytes ''hello''" and t = "[]" and s = "[]"]
  from inst pre have a: "parseDecompressed (bytes ''blob'' @ [0x00] @ bytes ''hello'') =
      Inl (Error ''Size mismatch'')" by blast
  from inst' pre have b: "parseDecompressed (bytes ''blob five'' @ [0x00] @ bytes ''hello'') =
      Inl (Error ''Size mismatch'')" by blast
  from inst'' pre have "parseDecompressed (bytes ''foo 5'' @ [0x00] @ bytes ''hello'') =
        (if parseInt (snd (headerFields (toString (bytes ''foo 5'')))) =
              Some (int (length (bytes ''hello'')))
         then Inr \<lparr>obj_type = takeWhile (\<lambda>u. u \<noteq> 0x20) (toString (bytes ''foo 5'')),
                   obj_size = int (length (bytes ''hello'')), obj_content = bytes ''hello''\<rparr>
         else Inl (Error ''Size mismatch''))"
    by blast
  then have c: "parseDecompressed (bytes ''foo 5'' @ [0x00] @ bytes ''hello'') =
     Inr \<lparr>obj_type = lit ''foo'', obj_size = 5, obj_content = bytes ''hello''\<rparr>"
    by (simp add: num foo)
  from inst pre
  have "parseDecompressed (bytes ''foo'' @ [0x20] @ bytes ''5abc'' @ [0x00] @ bytes ''hello'') =
        (if parseInt (Some (takeWhile (\<lambda>u. u \<noteq> 0x20) (toString (bytes ''5abc'')))) =
              Some (int (length (bytes ''hello'')))
         then Inr \<lparr>obj_type = toString (bytes ''foo''),
                   obj_size = int (length (bytes ''hello'')), obj_content = bytes ''hello''\<rparr>
         else Inl (Error ''Size mismatch''))"
    by blast
  then have e: "parseDecompressed (bytes ''foo'' @ [0x20] @ bytes ''5abc'' @ [0x00]
        @ bytes ''hello'') =
     Inr \<lparr>obj_type = lit ''foo'', obj_size = 5, obj_content = bytes ''hello''\<rparr>"
    by (simp add: num foo)
  from pre five a b c e show ?thesis by blast
qed

text \<open>
  C3. A payload made of N well-formed entries, one after the other, is parsed into
  exactly N entries, in the order of the payload: the entry of each piece has the text
  of its mode and of its name, the label of its mode and the hexadecimal form of its
  hash. The payload \<^verbatim>\<open>"100644 hello.txt\\0"\<close> followed by the bytes 0 to 19 gives the
  one entry with mode 100644, name hello.txt, the hexadecimal form of those 20 bytes
  and the label of the class that the specification calls regular file (blob), which
  the source prints as \<^verbatim>\<open>blob\<close>; the text returned for that payload is the one
  line made of these four, padded.
\<close>

theorem C3_entries_in_order:
  "((\<forall>r\<in>set rs. wellFormed r) \<longrightarrow>
      parseTreeEntries (concat (map entryBytes rs)) = map decoded rs \<and>
      length (parseTreeEntries (concat (map entryBytes rs))) = length rs) \<and>
   parseTreeEntries (bytes ''100644 hello.txt'' @ [0x00] @ map of_nat [0..<20]) =
     [\<lparr>entry_mode = lit ''100644'', entry_typeStr = classLabel RegularFile,
        entry_hash = lit ''000102030405060708090a0b0c0d0e0f10111213'',
        entry_name = lit ''hello.txt''\<rparr>] \<and>
   classLabel RegularFile = lit ''blob'' \<and>
   parseTreeObject (bytes ''100644 hello.txt'' @ [0x00] @ map of_nat [0..<20]) =
     lit ''100644 blob                 000102030405060708090a0b0c0d0e0f10111213    hello.txt''"
proof (intro conjI impI)
  assume wf: "\<forall>r\<in>set rs. wellFormed r"
  have "readEntry [] 0 = None" by (rule readEntry_short) simp
  with wf show eq: "parseTreeEntries (concat (map entryBytes rs)) = map decoded rs"
    using parseTreeEntries_encoded[of rs "[]"] by simp
  show "length (parseTreeEntries (concat (map entryBytes rs))) = length rs"
    by (simp add: eq)
next
  have "parseTreeEntries (entryBytes helloRaw @ []) = decoded helloRaw # parseTreeEntries []"
    by (rule parseTreeEntries_Cons) (rule wellFormed_helloRaw)
  moreover have "parseTreeEntries [] = []"
    by (rule parseTreeEntries_stop) (rule readEntry_short, simp)
  moreover have "entryBytes helloRaw = bytes ''100644 hello.txt'' @ [0x00] @ map of_nat [0..<20]"
    by (simp add: entryBytes_def helloRaw_def bytes_def)
  ultimately show "parseTreeEntries (bytes ''100644 hello.txt'' @ [0x00] @ map of_nat [0..<20]) =
     [\<lparr>entry_mode = lit ''100644'', entry_typeStr = classLabel RegularFile,
        entry_hash = lit ''000102030405060708090a0b0c0d0e0f10111213'',
        entry_name = lit ''hello.txt''\<rparr>]"
    by (simp add: decoded_helloRaw helloEntry_def)
  then show "parseTreeObject (bytes ''100644 hello.txt'' @ [0x00] @ map of_nat [0..<20]) =
     lit ''100644 blob                 000102030405060708090a0b0c0d0e0f10111213    hello.txt''"
    by (simp add: parseTreeObject_def entryLine_def padEnd_def lit_def replicate_16)
qed simp

theorem C3_entries_in_order_witness:
  "wellFormed helloRaw \<and> wellFormed srcRaw \<and>
   parseTreeEntries (entryBytes helloRaw @ entryBytes srcRaw) = [helloEntry, srcEntry]"
  using C3_entries_in_order[of "[helloRaw, srcRaw]"]
  by (simp add: wellFormed_helloRaw wellFormed_srcRaw decoded_helloRaw decoded_srcRaw)



text \<open>
  C4. The tree parser has no error to return: its result is always a list of entries.
  Where a field cannot be read in full from the offset on (no space byte to end the
  mode, no zero byte to end the name, or fewer than 20 bytes left for the hash) the loop
  is left and the entries read so far are the result, the unfinished entry being
  dropped. So well-formed entries followed by such a piece give the entries of the
  well-formed part alone, and in particular one well-formed entry followed by any 5
  bytes gives exactly that one entry.
\<close>

theorem C4_truncation_tolerated:
  "(missingField (drop offset content) \<longrightarrow>
      parseTree_loop content offset entries = entries) \<and>
   ((\<forall>r\<in>set rs. wellFormed r) \<and> missingField t \<longrightarrow>
      parseTreeEntries (concat (map entryBytes rs) @ t) = map decoded rs) \<and>
   (wellFormed r \<and> length g = 5 \<longrightarrow> parseTreeEntries (entryBytes r @ g) = [decoded r])"
proof (intro conjI impI)
  assume "missingField (drop offset content)"
  then show "parseTree_loop content offset entries = entries" by (rule parseTree_loop_stop)
next
  assume "(\<forall>r\<in>set rs. wellFormed r) \<and> missingField t"
  then show "parseTreeEntries (concat (map entryBytes rs) @ t) = map decoded rs"
    by (simp add: parseTreeEntries_encoded readEntry_missingField)
next
  assume a: "wellFormed r \<and> length g = 5"
  then have "readEntry g 0 = None" by (intro readEntry_short) simp
  then have "parseTreeEntries g = []" by (rule parseTreeEntries_stop)
  with a show "parseTreeEntries (entryBytes r @ g) = [decoded r]"
    by (simp add: parseTreeEntries_Cons)
qed

theorem C4_truncation_tolerated_witness:
  "missingField (drop 0 (bytes ''100644 cut'')) \<and>
   parseTree_loop (bytes ''100644 cut'') 0 [helloEntry] = [helloEntry] \<and>
   wellFormed helloRaw \<and> wellFormed srcRaw \<and>
   missingField (bytes ''100644 cut'') \<and>
   parseTreeEntries (entryBytes helloRaw @ entryBytes srcRaw @ bytes ''100644 cut'') =
     [helloEntry, srcEntry] \<and>
   length [0x31, 0x20, 0x78, 0x00, 0xFF :: byte] = 5 \<and>
   parseTreeEntries (entryBytes helloRaw @ [0x31, 0x20, 0x78, 0x00, 0xFF]) = [helloEntry]"
  using C4_truncation_tolerated[where rs = "[helloRaw, srcRaw]" and t = "bytes ''100644 cut''"
      and r = helloRaw and g = "[0x31, 0x20, 0x78, 0x00, 0xFF]" and offset = 0
      and content = "bytes ''100644 cut''" and entries = "[helloEntry]"]
  by (simp add: wellFormed_helloRaw wellFormed_srcRaw decoded_helloRaw decoded_srcRaw
        missingField_def bytes_def)

text \<open>
  C5. The label of a mode is found by exact comparison of the whole token, for every
  token: \<^verbatim>\<open>40000\<close> is a directory (label tree), \<^verbatim>\<open>100644\<close> a regular file (label
  blob), \<^verbatim>\<open>100755\<close> an executable file (label blob (executable)), \<^verbatim>\<open>120000\<close> a
  symbolic link (label symlink), \<^verbatim>\<open>160000\<close> an embedded repository (label commit
  (submodule)), and every other token, \<^verbatim>\<open>99999\<close> for one, is unknown. Each label
  belongs to one token only, so the source's labels and the classes of the
  specification's table determine each other. Every entry of a result carries the label
  of its own mode, and an entry with an unknown mode is kept, its mode being the text of
  the token as it stood in the payload.
\<close>

theorem C5_mode_classification:
  "modeType m = classLabel (spec_classification m) \<and>
   (modeType m = lit ''tree'' \<longleftrightarrow> m = lit ''40000'') \<and>
   (modeType m = lit ''blob'' \<longleftrightarrow> m = lit ''100644'') \<and>
   (modeType m = lit ''blob (executable)'' \<longleftrightarrow> m = lit ''100755'') \<and>
   (modeType m = lit ''symlink'' \<longleftrightarrow> m = lit ''120000'') \<and>
   (modeType m = lit ''commit (submodule)'' \<longleftrightarrow> m = lit ''160000'') \<and>
   (modeType m = lit ''unknown'' \<longleftrightarrow>
      m \<notin> {lit ''40000'', lit ''100644'', lit ''100755'', lit ''120000'', lit ''160000''}) \<and>
   modeType (lit ''99999'') = lit ''unknown'' \<and>
   (\<forall>e\<in>set (parseTreeEntries content). entry_typeStr e = modeType (entry_mode e)) \<and>
   (wellFormed r \<longrightarrow>
      parseTreeEntries (entryBytes r @ rest) =
        \<lparr>entry_mode = toString (raw_mode r), entry_typeStr = modeType (toString (raw_mode r)),
           entry_hash = toHex (raw_hash r), entry_name = toString (raw_name r)\<rparr>
        # parseTreeEntries rest)"
proof (intro conjI ballI impI)
  show "modeType m = classLabel (spec_classification m)" by (rule modeType_spec)
  show "modeType m = lit ''tree'' \<longleftrightarrow> m = lit ''40000''"
    by (simp add: modeType_def lit_def)
  show "modeType m = lit ''blob'' \<longleftrightarrow> m = lit ''100644''"
    by (simp add: modeType_def lit_def)
  show "modeType m = lit ''blob (executable)'' \<longleftrightarrow> m = lit ''100755''"
    by (simp add: modeType_def lit_def)
  show "modeType m = lit ''symlink'' \<longleftrightarrow> m = lit ''120000''"
    by (simp add: modeType_def lit_def)
  show "modeType m = lit ''commit (submodule)'' \<longleftrightarrow> m = lit ''160000''"
    by (simp add: modeType_def lit_def)
  show "modeType m = lit ''unknown'' \<longleftrightarrow>
      m \<notin> {lit ''40000'', lit ''100644'', lit ''100755'', lit ''120000'', lit ''160000''}"
    by (simp add: modeType_def lit_def)
  show "modeType (lit ''99999'') = lit ''unknown''"
    by (simp add: modeType_def lit_def)
next
  fix e assume "e \<in> set (parseTreeEntries content)"
  then show "entry_typeStr e = modeType (entry_mode e)"
    by (rule parseTreeEntries_all[rotated]) (rule readEntry_typeStr)
next
  assume "wellFormed r"
  then show "parseTreeEntries (entryBytes r @ rest) =
        \<lparr>entry_mode = toString (raw_mode r), entry_typeStr = modeType (toString (raw_mode r)),
           entry_hash = toHex (raw_hash r), entry_name = toString (raw_name r)\<rparr>
        # parseTreeEntries rest"
    by (simp add: parseTreeEntries_Cons decoded_def)
qed

theorem C5_mode_classification_witness:
  "wellFormed oddRaw \<and> parseTreeEntries (entryBytes oddRaw) = [oddEntry] \<and>
   entry_mode oddEntry = lit ''99999'' \<and> entry_typeStr oddEntry = lit ''unknown'' \<and>
   entry_typeStr oddEntry = modeType (entry_mode oddEntry)"
  using C5_mode_classification[of "lit ''99999''" "entryBytes oddRaw" oddRaw "[]"]
  by (simp add: parse_oddRaw wellFormed_oddRaw) (simp add: oddEntry_def)


text \<open>
  C7. The name of an entry is whatever text the bytes before the zero byte decode to:
  for all name bytes, well-formed UTF-8 or not, the entry is emitted and parsing goes on
  with the bytes after its hash. Decoding never fails; a byte that cannot start a
  sequence (a continuation byte, \<^verbatim>\<open>C0\<close>, \<^verbatim>\<open>C1\<close> or \<^verbatim>\<open>F5\<close> and above) becomes
  U+FFFD and the bytes after it are decoded as usual.
\<close>

theorem C7_names_best_effort:
  "(0x20 \<notin> set m \<and> 0x00 \<notin> set n \<and> length h = 20 \<longrightarrow>
      parseTreeEntries (m @ [0x20] @ n @ [0x00] @ h @ rest) =
        \<lparr>entry_mode = toString m, entry_typeStr = modeType (toString m),
           entry_hash = toHex h, entry_name = toString n\<rparr> # parseTreeEntries rest) \<and>
   ((0x80 \<le> unat b \<and> unat b \<le> 0xC1) \<or> 0xF5 \<le> unat b \<longrightarrow>
      toString (b # bs) = 0xFFFD # toString bs)"
proof (intro conjI impI)
  assume a: "0x20 \<notin> set m \<and> 0x00 \<notin> set n \<and> length h = 20"
  let ?r = "\<lparr>raw_mode = m, raw_name = n, raw_hash = h\<rparr>"
  from a have "wellFormed ?r" by (simp add: wellFormed_def)
  from parseTreeEntries_Cons[OF this, of rest]
  show "parseTreeEntries (m @ [0x20] @ n @ [0x00] @ h @ rest) =
        \<lparr>entry_mode = toString m, entry_typeStr = modeType (toString m),
           entry_hash = toHex h, entry_name = toString n\<rparr> # parseTreeEntries rest"
    by (simp add: entryBytes_def decoded_def)
next
  assume "(0x80 \<le> unat b \<and> unat b \<le> 0xC1) \<or> 0xF5 \<le> unat b"
  then show "toString (b # bs) = 0xFFFD # toString bs" by (rule toString_invalid_lead)
qed

theorem C7_names_best_effort_witness:
  "0x20 \<notin> set (bytes ''100644'') \<and> 0x00 \<notin> set [0xFF, 0x61 :: byte] \<and>
   length (map of_nat [0..<20] :: buffer) = 20 \<and>
   parseTreeEntries (bytes ''100644'' @ [0x20] @ [0xFF, 0x61] @ [0x00] @ map of_nat [0..<20]
                      @ entryBytes srcRaw) =
     [helloEntry\<lparr>entry_name := [0xFFFD, 0x61]\<rparr>, srcEntry] \<and>
   0xF5 \<le> unat (0xFF :: byte) \<and> toString [0xFF, 0x61] = [0xFFFD, 0x61]"
proof -
  have one: "parseTreeEntries (entryBytes srcRaw) = [srcEntry]"
    using parseTreeEntries_Cons[OF wellFormed_srcRaw, of "[]"]
    by (simp add: parseTreeEntries_Nil decoded_srcRaw)
  have asc: "toString [0x61] = [0x61]" by (simp add: toString_def utf16_def)
  have hello: "toString (bytes ''100644'') = lit ''100644''"
    "modeType (lit ''100644'') = lit ''blob''"
    "toHex (map of_nat [0..<20]) = lit ''000102030405060708090a0b0c0d0e0f10111213''"
    by (simp_all add: bytes_def lit_def toString_def utf16_def modeType_def toHex_def
          hexDigit_def upt_rec)
  show ?thesis
    using C7_names_best_effort[of "bytes ''100644''" "[0xFF, 0x61]" "map of_nat [0..<20]"
        "entryBytes srcRaw" "0xFF" "[0x61]"]
    by (simp add: one asc hello helloEntry_def) (simp add: bytes_def)
qed


text \<open>
  C8. The hash of every entry of a result is the hexadecimal form of 20 consecutive
  bytes of the payload: 40 characters, each a digit or a lowercase letter from a to f.
\<close>

theorem C8_hash_hex:
  "\<forall>e\<in>set (parseTreeEntries content).
     length (entry_hash e) = 40 \<and>
     set (entry_hash e) \<subseteq> set (lit ''0123456789abcdef'') \<and>
     (\<exists>i. i + 20 \<le> length content \<and> length (slice content i (i + 20)) = 20 \<and>
          entry_hash e = toHex (slice content i (i + 20)))"
proof
  fix e assume mem: "e \<in> set (parseTreeEntries content)"
  have "\<exists>i. i + 20 \<le> length content \<and> entry_hash e = toHex (slice content i (i + 20))"
    using mem by (rule parseTreeEntries_all[rotated]) (rule readEntry_hash)
  then obtain i where i: "i + 20 \<le> length content"
    and h: "entry_hash e = toHex (slice content i (i + 20))" by blast
  from i have len: "length (slice content i (i + 20)) = 20" by (rule slice_length)
  from h len have "length (entry_hash e) = 40" by (simp add: toHex_length)
  moreover from h have "set (entry_hash e) \<subseteq> set (lit ''0123456789abcdef'')"
    by (simp add: toHex_digits)
  ultimately show "length (entry_hash e) = 40 \<and>
     set (entry_hash e) \<subseteq> set (lit ''0123456789abcdef'') \<and>
     (\<exists>i. i + 20 \<le> length content \<and> length (slice content i (i + 20)) = 20 \<and>
          entry_hash e = toHex (slice content i (i + 20)))"
    using i h len by blast
qed

theorem C8_hash_hex_witness:
  "parseTreeEntries (entryBytes helloRaw) = [helloEntry] \<and>
   entry_hash helloEntry = lit ''000102030405060708090a0b0c0d0e0f10111213'' \<and>
   length (entry_hash helloEntry) = 40 \<and>
   set (entry_hash helloEntry) \<subseteq> set (lit ''0123456789abcdef'') \<and>
   (\<exists>i. i + 20 \<le> length (entryBytes helloRaw) \<and>
        length (slice (entryBytes helloRaw) i (i + 20)) = 20 \<and>
        entry_hash helloEntry = toHex (slice (entryBytes helloRaw) i (i + 20)))"
  using C8_hash_hex[of "entryBytes helloRaw"]
  by (simp add: parse_helloRaw) (simp add: helloEntry_def)


text \<open>
  C9. Every pass of the loop that emits an entry moves the offset forward by at least
  22 bytes and never beyond the end of the payload. So the loop is left after at most
  one pass for every 22 bytes of payload plus one: with that many passes allowed it
  returns the result of the unbounded loop, whose entries number at most a 22nd of the
  payload's length. (The recursion of the loop, like that of the decoder of the header,
  is accepted as total by its termination proof.)
\<close>

theorem C9_cursor_advances:
  "(readEntry content offset = Some (e, offset') \<longrightarrow>
      offset + 22 \<le> offset' \<and> offset' \<le> length content) \<and>
   22 * length (parseTreeEntries content) \<le> length content \<and>
   parseTree_fuel (length content div 22 + 1) content 0 [] = Some (parseTreeEntries content)"
proof (intro conjI impI)
  assume "readEntry content offset = Some (e, offset')"
  then show "offset + 22 \<le> offset'" and "offset' \<le> length content"
    by (rule readEntry_offset)+
next
  show "22 * length (parseTreeEntries content) \<le> length content"
    using parseTree_loop_bound[of content 0 "[]"] by (simp add: parseTreeEntries_def)
  show "parseTree_fuel (length content div 22 + 1) content 0 [] =
        Some (parseTreeEntries content)"
    unfolding parseTreeEntries_def by (rule parseTree_fuel_enough) simp
qed

theorem C9_cursor_advances_witness:
  "readEntry (entryBytes helloRaw) 0 = Some (helloEntry, 37) \<and>
   (0::nat) + 22 \<le> 37 \<and> 37 \<le> length (entryBytes helloRaw)"
  using C9_cursor_advances[of "entryBytes helloRaw" 0 helloEntry 37]
    readEntry_entryBytes[OF wellFormed_helloRaw, of "[]"]
  by (simp add: decoded_helloRaw) (simp add: entryBytes_def helloRaw_def bytes_def)


text \<open>
  C10. In every entry of a result the mode holds no space character and the name holds
  no character U+0000, whatever the payload; and the empty payload gives no entry.
\<close>

theorem C10_field_separation:
  "(\<forall>e\<in>set (parseTreeEntries content).
      0x20 \<notin> set (entry_mode e) \<and> 0x00 \<notin> set (entry_name e)) \<and>
   parseTreeEntries [] = []"
proof (intro conjI ballI)
  fix e assume mem: "e \<in> set (parseTreeEntries content)"
  show "0x20 \<notin> set (entry_mode e)"
    using mem by (rule parseTreeEntries_all[rotated]) (rule readEntry_separated)
  show "0x00 \<notin> set (entry_name e)"
    using mem by (rule parseTreeEntries_all[rotated]) (rule readEntry_separated)
next
  show "parseTreeEntries [] = []" by (rule parseTreeEntries_Nil)
qed

theorem C10_field_separation_witness:
  "parseTreeEntries (entryBytes helloRaw) = [helloEntry] \<and>
   0x20 \<notin> set (entry_mode helloEntry) \<and> 0x00 \<notin> set (entry_name helloEntry)"
  using C10_field_separation[of "entryBytes helloRaw"]
  by (simp add: parse_helloRaw)



end
